theory Spec2Isabelle
  imports Complex_Main
begin

section \<open>Strings, values and exceptions\<close>

text \<open>
  A Python \<^verbatim>\<open>str\<close> is a sequence of Unicode code points; the regular expression of
  \<^verbatim>\<open>User._is_valid_email\<close> classifies code points, so a string is a list of code
  points here. \<open>py_str\<close> turns an ASCII literal of the source into such a list.
\<close>

type_synonym codepoint = nat
type_synonym str = "codepoint list"

definition py_str :: "string \<Rightarrow> str" where
  "py_str cs = map of_char cs"

text \<open>
  \<^verbatim>\<open>str(n)\<close> for an integer: the decimal digits, with a minus sign for a negative one.
\<close>

function dec :: "nat \<Rightarrow> str" where
  "dec n = (if n < 10 then [48 + n] else dec (n div 10) @ [48 + n mod 10])"
  by pat_completeness auto
termination
  by (relation "measure (\<lambda>n. n)") auto

declare dec.simps [simp del]

definition str_int :: "int \<Rightarrow> str" where
  "str_int i = (if i < 0 then 45 # dec (nat (- i)) else dec (nat i))"

text \<open>The values a \<^verbatim>\<open>dict[str, Any]\<close> of this file holds: integers and strings.\<close>

datatype pyval = PInt int | PStr str

text \<open>
  A \<^verbatim>\<open>dict\<close> keeps its keys in insertion order; assigning to a key that is present
  replaces the value where it stands, assigning to a new key appends the entry.
\<close>

type_synonym ('k, 'v) dict = "('k \<times> 'v) list"

definition dict_get :: "('k, 'v) dict \<Rightarrow> 'k \<Rightarrow> 'v option" where
  "dict_get d k = map_of d k"

fun dict_set :: "('k, 'v) dict \<Rightarrow> 'k \<Rightarrow> 'v \<Rightarrow> ('k, 'v) dict" where
  "dict_set [] k v = [(k, v)]"
| "dict_set ((k', v') # d) k v = (if k' = k then (k, v) # d else (k', v') # dict_set d k v)"

definition dict_len :: "('k, 'v) dict \<Rightarrow> nat" where
  "dict_len d = length d"

definition dict_keys :: "('k, 'v) dict \<Rightarrow> 'k list" where
  "dict_keys d = map fst d"

definition dict_values :: "('k, 'v) dict \<Rightarrow> 'v list" where
  "dict_values d = map snd d"

text \<open>
  Exceptions are values: the class, as far as the handlers of the source tell classes apart,
  and the message \<^verbatim>\<open>str(e)\<close>. \<open>CancelledError\<close> and \<open>OtherBaseException\<close>
  (\<^verbatim>\<open>KeyboardInterrupt\<close>, \<^verbatim>\<open>SystemExit\<close>) derive from \<^verbatim>\<open>BaseException\<close> only;
  the other three are instances of \<^verbatim>\<open>Exception\<close>.
\<close>

datatype exc_class = TimeoutError | ValueError | OtherException | CancelledError | OtherBaseException

datatype exc = Exc (exc_cls: exc_class) (exc_msg: str)

fun isinstance_Exception :: "exc \<Rightarrow> bool" where
  "isinstance_Exception (Exc TimeoutError m) = True"
| "isinstance_Exception (Exc ValueError m) = True"
| "isinstance_Exception (Exc OtherException m) = True"
| "isinstance_Exception (Exc CancelledError m) = False"
| "isinstance_Exception (Exc OtherBaseException m) = False"

fun isinstance_TimeoutError :: "exc \<Rightarrow> bool" where
  "isinstance_TimeoutError (Exc c m) = (c = TimeoutError)"

section \<open>The regular expression of the email check\<close>

text \<open>
  \<^verbatim>\<open>\s\<close> in a \<^verbatim>\<open>str\<close> pattern: the code points for which \<^verbatim>\<open>str.isspace\<close> holds.
\<close>

definition isspace :: "codepoint \<Rightarrow> bool" where
  "isspace c \<longleftrightarrow>
     (9 \<le> c \<and> c \<le> 13) \<or> (28 \<le> c \<and> c \<le> 32) \<or> c = 133 \<or> c = 160 \<or> c = 5760 \<or>
     (8192 \<le> c \<and> c \<le> 8202) \<or> c = 8232 \<or> c = 8233 \<or> c = 8239 \<or> c = 8287 \<or> c = 12288"

text \<open>The class \<^verbatim>\<open>[^\s@]\<close>.\<close>

definition not_space_at :: "codepoint \<Rightarrow> bool" where
  "not_space_at c \<longleftrightarrow> \<not> isspace c \<and> c \<noteq> 64"

text \<open>
  The pattern \<^verbatim>\<open>^[^\s@]+@[^\s@]+\.[^\s@]+$\<close> is a sequence of items: the anchors
  \<^verbatim>\<open>^\<close> and \<^verbatim>\<open>$\<close>, a literal code point, and a class repeated once or more.
\<close>

datatype re_item = Bol | Eol | Lit codepoint | Plus1 "codepoint \<Rightarrow> bool"

text \<open>
  \<open>re_match_at ps pos s\<close>: the items \<open>ps\<close> match at position \<open>pos\<close>, where \<open>s\<close> is the
  rest of the subject from there. As \<^verbatim>\<open>re.match\<close> the match starts at the current
  position and need not reach the end of the subject. A repetition takes as many code points
  as it can and gives them back one by one. Without \<^verbatim>\<open>re.MULTILINE\<close>, \<^verbatim>\<open>^\<close> matches
  at position 0 only, and \<^verbatim>\<open>$\<close> matches at the end of the subject and just before a
  newline that ends the subject.
\<close>

fun re_match_at :: "re_item list \<Rightarrow> nat \<Rightarrow> str \<Rightarrow> bool" where
  "re_match_at [] pos s = True"
| "re_match_at (Bol # ps) pos s = (pos = 0 \<and> re_match_at ps pos s)"
| "re_match_at (Eol # ps) pos s = ((s = [] \<or> s = [10]) \<and> re_match_at ps pos s)"
| "re_match_at (Lit c # ps) pos [] = False"
| "re_match_at (Lit c # ps) pos (x # xs) = (x = c \<and> re_match_at ps (Suc pos) xs)"
| "re_match_at (Plus1 cls # ps) pos [] = False"
| "re_match_at (Plus1 cls # ps) pos (x # xs) =
     (cls x \<and> (re_match_at (Plus1 cls # ps) (Suc pos) xs \<or> re_match_at ps (Suc pos) xs))"

definition re_match :: "re_item list \<Rightarrow> str \<Rightarrow> bool" where
  "re_match ps s = re_match_at ps 0 s"

definition pattern :: "re_item list" where
  "pattern = [Bol, Plus1 not_space_at, Lit 64, Plus1 not_space_at, Lit 46, Plus1 not_space_at, Eol]"

definition is_valid_email :: "str \<Rightarrow> bool" where
  "is_valid_email email = re_match pattern email"

section \<open>The enumerations and the \<open>User\<close> record\<close>

datatype UserRole = ADMIN | USER | GUEST

text \<open>\<^verbatim>\<open>role.name\<close>: the name of the member.\<close>

fun role_name :: "UserRole \<Rightarrow> str" where
  "role_name ADMIN = py_str ''ADMIN''"
| "role_name USER = py_str ''USER''"
| "role_name GUEST = py_str ''GUEST''"

text \<open>
  A naive \<^verbatim>\<open>datetime\<close>, as \<^verbatim>\<open>datetime.now()\<close> returns it, and its
  \<^verbatim>\<open>isoformat()\<close>: \<^verbatim>\<open>YYYY-MM-DDTHH:MM:SS\<close>, followed by \<^verbatim>\<open>.ffffff\<close> when the
  microsecond is not 0.
\<close>

record datetime =
  year :: nat
  month :: nat
  day :: nat
  hour :: nat
  minute :: nat
  second :: nat
  microsecond :: nat

definition zpad :: "nat \<Rightarrow> nat \<Rightarrow> str" where
  "zpad w n = replicate (w - length (dec n)) 48 @ dec n"

definition isoformat :: "datetime \<Rightarrow> str" where
  "isoformat d =
     zpad 4 (year d) @ [45] @ zpad 2 (month d) @ [45] @ zpad 2 (day d) @ [84] @
     zpad 2 (hour d) @ [58] @ zpad 2 (minute d) @ [58] @ zpad 2 (second d) @
     (if microsecond d \<noteq> 0 then [46] @ zpad 6 (microsecond d) else [])"

record User =
  id_user :: int
  name :: str
  email :: str
  role :: UserRole
  metadata :: "(str, pyval) dict"
  created_at :: datetime

text \<open>\<^verbatim>\<open>User.__post_init__\<close>: raises \<^verbatim>\<open>ValueError\<close> when the email check fails.\<close>

definition post_init :: "User \<Rightarrow> exc + unit" where
  "post_init self =
     (if \<not> is_valid_email (email self)
      then Inl (Exc ValueError (py_str ''Invalid email: '' @ email self))
      else Inr ())"

text \<open>
  The constructor the \<^verbatim>\<open>dataclass\<close> decorator generates: it fills the fields, an
  argument left out (\<open>None\<close> here) taking its default (\<^verbatim>\<open>UserRole.USER\<close>, a new empty
  \<^verbatim>\<open>dict\<close>, \<^verbatim>\<open>datetime.now()\<close>), and then runs \<^verbatim>\<open>__post_init__\<close>. The argument
  \<open>now\<close> is what \<^verbatim>\<open>datetime.now()\<close> reads at the call.
\<close>

definition User_init ::
  "datetime \<Rightarrow> int \<Rightarrow> str \<Rightarrow> str \<Rightarrow> UserRole option \<Rightarrow> (str, pyval) dict option \<Rightarrow>
   datetime option \<Rightarrow> exc + User" where
  "User_init now i nm em r md ca =
     (let self = \<lparr>id_user = i, name = nm, email = em,
                  role = (case r of None \<Rightarrow> USER | Some x \<Rightarrow> x),
                  metadata = (case md of None \<Rightarrow> [] | Some m \<Rightarrow> m),
                  created_at = (case ca of None \<Rightarrow> now | Some t \<Rightarrow> t)\<rparr>
      in case post_init self of Inl e \<Rightarrow> Inl e | Inr u \<Rightarrow> Inr self)"

definition to_dict :: "User \<Rightarrow> (str, pyval) dict" where
  "to_dict self =
     [(py_str ''id'', PInt (id_user self)),
      (py_str ''name'', PStr (name self)),
      (py_str ''email'', PStr (email self)),
      (py_str ''role'', PStr (role_name (role self))),
      (py_str ''created_at'', PStr (isoformat (created_at self)))]"

section \<open>The console and awaited operations\<close>

text \<open>
  A line printed to the console. The lines of the \<^verbatim>\<open>logged\<close> decorator show the
  \<^verbatim>\<open>repr\<close> of the arguments, which for the service object is its address; they are kept
  as the function name and the value shown (the identifier passed, the result, the
  exception) instead of as text.
\<close>

datatype line =
    Printed str
  | Calling str int
  | Returned str "User option"
  | Raised str exc

text \<open>
  What \<^verbatim>\<open>await asyncio.sleep(0.1)\<close> does is the event loop's business: it completes, or
  an exception is raised at the await (\<^verbatim>\<open>TimeoutError\<close> from the enclosing
  \<^verbatim>\<open>asyncio.timeout\<close>, \<^verbatim>\<open>CancelledError\<close> when the task is cancelled).
\<close>

datatype await_outcome = Completes | Raises exc

section \<open>The services\<close>

record UserService =
  endpoint :: str
  cache :: "(int, User) dict"
  session :: "unit option"

definition UserService_init :: UserService where
  "UserService_init = \<lparr>endpoint = py_str ''/users'', cache = [], session = None\<rparr>"

definition get_cache :: "UserService \<Rightarrow> int \<Rightarrow> User option \<times> UserService" where
  "get_cache self i = (dict_get (cache self) i, self)"

definition set_cache :: "UserService \<Rightarrow> int \<Rightarrow> User \<Rightarrow> unit \<times> UserService" where
  "set_cache self i item = ((), self\<lparr>cache := dict_set (cache self) i item\<rparr>)"

text \<open>
  The decorator \<^verbatim>\<open>logged\<close>: a line before the call, a line with the result after it, and
  for an exception that is an instance of \<^verbatim>\<open>Exception\<close> a line before it is raised again.
\<close>

definition logged ::
  "str \<Rightarrow> (UserService \<Rightarrow> int \<Rightarrow> (exc + User option) \<times> UserService \<times> line list) \<Rightarrow>
   UserService \<Rightarrow> int \<Rightarrow> (exc + User option) \<times> UserService \<times> line list" where
  "logged fname func self i =
     (case func self i of
        (Inr result, self', out) \<Rightarrow>
          (Inr result, self', [Calling fname i] @ out @ [Returned fname result])
      | (Inl e, self', out) \<Rightarrow>
          (if isinstance_Exception e
           then (Inl e, self', [Calling fname i] @ out @ [Raised fname e])
           else (Inl e, self', [Calling fname i] @ out)))"

text \<open>
  The body of the \<^verbatim>\<open>try\<close> statement of \<^verbatim>\<open>fetch_by_id\<close>: the awaited delay, then the
  mock user is built and stored. A \<^verbatim>\<open>User\<close> is always true in a condition (the class
  defines neither \<^verbatim>\<open>__bool__\<close> nor \<^verbatim>\<open>__len__\<close>), so a cached user is returned as it is.
\<close>

definition simulated_fetch ::
  "await_outcome \<Rightarrow> datetime \<Rightarrow> UserService \<Rightarrow> int \<Rightarrow> (exc + User) \<times> UserService" where
  "simulated_fetch sim now self i =
     (case sim of
        Raises e \<Rightarrow> (Inl e, self)
      | Completes \<Rightarrow>
          (case User_init now i (py_str ''User '' @ str_int i)
                  (py_str ''user'' @ str_int i @ py_str ''@example.com'') (Some USER) None None of
             Inl e \<Rightarrow> (Inl e, self)
           | Inr user \<Rightarrow> (Inr user, snd (set_cache self i user))))"

definition fetch_by_id_body ::
  "await_outcome \<Rightarrow> datetime \<Rightarrow> UserService \<Rightarrow> int \<Rightarrow>
   (exc + User option) \<times> UserService \<times> line list" where
  "fetch_by_id_body sim now self i =
     (case get_cache self i of
        (Some cached, self1) \<Rightarrow> (Inr (Some cached), self1, [])
      | (None, self1) \<Rightarrow>
          (case simulated_fetch sim now self1 i of
             (Inr user, self2) \<Rightarrow> (Inr (Some user), self2, [])
           | (Inl e, self2) \<Rightarrow>
               (if isinstance_TimeoutError e
                then (Inr None, self2, [Printed (py_str ''Timeout fetching user '' @ str_int i)])
                else if isinstance_Exception e
                then (Inr None, self2,
                      [Printed (py_str ''Error fetching user '' @ str_int i @ py_str '': '' @ exc_msg e)])
                else (Inl e, self2, []))))"

definition fetch_by_id ::
  "await_outcome \<Rightarrow> datetime \<Rightarrow> UserService \<Rightarrow> int \<Rightarrow>
   (exc + User option) \<times> UserService \<times> line list" where
  "fetch_by_id sim now = logged (py_str ''fetch_by_id'') (fetch_by_id_body sim now)"

text \<open>
  \<^verbatim>\<open>create_user\<close>; a \<open>role\<close> of \<open>None\<close> is the argument left out, which defaults to
  \<^verbatim>\<open>UserRole.USER\<close>.
\<close>

definition create_user ::
  "datetime \<Rightarrow> UserService \<Rightarrow> str \<Rightarrow> str \<Rightarrow> UserRole option \<Rightarrow> (exc + User) \<times> UserService" where
  "create_user now self nm em r =
     (let new_id = int (dict_len (cache self)) + 1 in
      case User_init now new_id nm em (Some (case r of None \<Rightarrow> USER | Some x \<Rightarrow> x)) None None of
        Inl e \<Rightarrow> (Inl e, self)
      | Inr user \<Rightarrow> (Inr user, snd (set_cache self new_id user)))"

text \<open>The comprehension of \<^verbatim>\<open>get_users_by_role\<close>, as the loop it stands for.\<close>

fun users_with_role :: "UserRole \<Rightarrow> User list \<Rightarrow> User list" where
  "users_with_role r [] = []"
| "users_with_role r (user # rest) =
     (if role user = r then user # users_with_role r rest else users_with_role r rest)"

definition get_users_by_role :: "UserService \<Rightarrow> UserRole \<Rightarrow> User list \<times> UserService" where
  "get_users_by_role self r = (users_with_role r (dict_values (cache self)), self)"

section \<open>Floating-point numbers\<close>




text \<open>The number of binary digits of a natural number.\<close>

fun bits :: "nat \<Rightarrow> nat" where
  "bits n = (if n = 0 then 0 else Suc (bits (n div 2)))"

declare bits.simps [simp del]





section \<open>The debounce decorator\<close>




section \<open>The database connection\<close>

record DatabaseConnection =
  connection_string :: str
  connection :: "unit option"

definition DatabaseConnection_init :: "str \<Rightarrow> DatabaseConnection" where
  "DatabaseConnection_init cs = \<lparr>connection_string = cs, connection = None\<rparr>"

definition aenter ::
  "await_outcome \<Rightarrow> DatabaseConnection \<Rightarrow>
   (exc + DatabaseConnection) \<times> DatabaseConnection \<times> line list" where
  "aenter sim self =
     (let out = [Printed (py_str ''Connecting to '' @ connection_string self)] in
      case sim of
        Raises e \<Rightarrow> (Inl e, self, out)
      | Completes \<Rightarrow> (Inr self, self, out))"

text \<open>
  \<^verbatim>\<open>__aexit__\<close> takes the triple of the exception that left the block (its class, the
  exception, the traceback), or three times \<^verbatim>\<open>None\<close>; it reads none of them.
\<close>

definition aexit ::
  "DatabaseConnection \<Rightarrow> 't \<Rightarrow> 'v \<Rightarrow> 'tb \<Rightarrow> bool \<times> DatabaseConnection \<times> line list" where
  "aexit self exc_type exc_val exc_tb = (False, self, [Printed (py_str ''Closing database connection'')])"

text \<open>
  The statement \<^verbatim>\<open>async with conn as target: body\<close>: \<^verbatim>\<open>__aenter__\<close>, the body, then
  \<^verbatim>\<open>__aexit__\<close> with the triple of the exception that left the body; that exception is
  raised again unless \<^verbatim>\<open>__aexit__\<close> returns a true value, in which case the statement
  ends normally, with no value (\<open>Inr None\<close>).
\<close>

definition async_with ::
  "await_outcome \<Rightarrow> DatabaseConnection \<Rightarrow> (DatabaseConnection \<Rightarrow> exc + 'r) \<Rightarrow>
   (exc + 'r option) \<times> DatabaseConnection \<times> line list" where
  "async_with sim self body =
     (case aenter sim self of
        (Inl e, self1, out1) \<Rightarrow> (Inl e, self1, out1)
      | (Inr target, self1, out1) \<Rightarrow>
          (case body target of
             Inr r \<Rightarrow>
               (case aexit self1 (None :: exc_class option) (None :: exc option) (None :: unit option) of
                  (suppress, self2, out2) \<Rightarrow> (Inr (Some r), self2, out1 @ out2))
           | Inl e \<Rightarrow>
               (case aexit self1 (Some (exc_cls e)) (Some e) (Some ()) of
                  (suppress, self2, out2) \<Rightarrow>
                    (if suppress then (Inr None, self2, out1 @ out2)
                     else (Inl e, self2, out1 @ out2)))))"

section \<open>Sequences of operations on a service\<close>

text \<open>
  The operations a caller can run on a \<^verbatim>\<open>UserService\<close>, each with the readings of the
  environment it consumes, and the state of the service after a sequence of them. An
  operation that raises leaves the service as it was at the \<^verbatim>\<open>raise\<close>.
\<close>

datatype op =
    GetCache int
  | SetCache int User
  | FetchById await_outcome datetime int
  | CreateUser datetime str str "UserRole option"
  | GetUsersByRole UserRole

fun run_op :: "UserService \<Rightarrow> op \<Rightarrow> UserService" where
  "run_op self (GetCache i) = snd (get_cache self i)"
| "run_op self (SetCache i item) = snd (set_cache self i item)"
| "run_op self (FetchById sim now i) = fst (snd (fetch_by_id sim now self i))"
| "run_op self (CreateUser now nm em r) = snd (create_user now self nm em r)"
| "run_op self (GetUsersByRole r) = snd (get_users_by_role self r)"

fun run_ops :: "UserService \<Rightarrow> op list \<Rightarrow> UserService" where
  "run_ops self [] = self"
| "run_ops self (x # xs) = run_ops (run_op self x) xs"

text \<open>
  A sequence of \<^verbatim>\<open>create_user\<close> calls, as \<^verbatim>\<open>main\<close> makes them: the result of each
  call and the service after the last. \<open>created\<close> keeps the users of the calls that
  returned.
\<close>

fun create_users ::
  "UserService \<Rightarrow> (datetime \<times> str \<times> str \<times> UserRole option) list \<Rightarrow>
   (exc + User) list \<times> UserService" where
  "create_users self [] = ([], self)"
| "create_users self ((now, nm, em, r) # calls) =
     (case create_user now self nm em r of
        (res, self1) \<Rightarrow>
          (case create_users self1 calls of (ress, self2) \<Rightarrow> (res # ress, self2)))"

fun created :: "(exc + User) list \<Rightarrow> User list" where
  "created [] = []"
| "created (Inr u # rs) = u # created rs"
| "created (Inl e # rs) = created rs"

section \<open>The email format in the words of the specification\<close>

text \<open>
  "One or more non-space non-@ characters": a segment. A well-formed email is a segment, an
  \<^verbatim>\<open>@\<close>, a segment, a dot, a segment, and nothing else. \<open>i\<close> is the place of the
  \<^verbatim>\<open>@\<close> and \<open>j\<close> the place of the dot that separates the last two segments.
\<close>

definition segment :: "str \<Rightarrow> bool" where
  "segment a \<longleftrightarrow> a \<noteq> [] \<and> list_all not_space_at a"

definition spec_well_formed :: "str \<Rightarrow> bool" where
  "spec_well_formed s \<longleftrightarrow>
     list_ex (\<lambda>i. list_ex (\<lambda>j.
         segment (take i s) \<and> s ! i = 64 \<and>
         segment (take (j - Suc i) (drop (Suc i) s)) \<and> s ! j = 46 \<and>
         segment (drop (Suc j) s))
       [Suc i..<length s]) [0..<length s]"

text \<open>A clock reading for the examples.\<close>

definition new_year :: datetime where
  "new_year = \<lparr>year = 2024, month = 1, day = 1, hour = 0, minute = 0, second = 0, microsecond = 0\<rparr>"

definition alice :: User where
  "alice = \<lparr>id_user = 1, name = py_str ''Alice'', email = py_str ''alice@example.com'',
             role = ADMIN, metadata = [], created_at = new_year\<rparr>"

definition bob :: User where
  "bob = \<lparr>id_user = 2, name = py_str ''Bob'', email = py_str ''bob@example.com'',
           role = USER, metadata = [], created_at = new_year\<rparr>"

text \<open>The mock user \<^verbatim>\<open>fetch_by_id(2)\<close> builds when the clock reads \<open>new_year\<close>.\<close>

definition mock_user_2 :: User where
  "mock_user_2 = \<lparr>id_user = 2, name = py_str ''User 2'', email = py_str ''user2@example.com'',
                   role = USER, metadata = [], created_at = new_year\<rparr>"

section \<open>Evaluating the email check\<close>

lemmas email_eval =
  is_valid_email_def re_match_def pattern_def py_str_def not_space_at_def isspace_def

section \<open>Construction and dictionary conversion of a \<open>User\<close>\<close>

lemma User_init_valid:
  "is_valid_email em \<Longrightarrow>
   User_init now i nm em r md ca =
     Inr \<lparr>id_user = i, name = nm, email = em,
          role = (case r of None \<Rightarrow> USER | Some x \<Rightarrow> x),
          metadata = (case md of None \<Rightarrow> [] | Some m \<Rightarrow> m),
          created_at = (case ca of None \<Rightarrow> now | Some t \<Rightarrow> t)\<rparr>"
  by (simp add: User_init_def post_init_def Let_def)

lemma User_init_invalid:
  "\<not> is_valid_email em \<Longrightarrow>
   User_init now i nm em r md ca = Inl (Exc ValueError (py_str ''Invalid email: '' @ em))"
  by (simp add: User_init_def post_init_def Let_def)

lemma to_dict_lookup:
  "dict_keys (to_dict u) =
     [py_str ''id'', py_str ''name'', py_str ''email'', py_str ''role'', py_str ''created_at'']"
  "dict_get (to_dict u) (py_str ''id'') = Some (PInt (id_user u))"
  "dict_get (to_dict u) (py_str ''name'') = Some (PStr (name u))"
  "dict_get (to_dict u) (py_str ''email'') = Some (PStr (email u))"
  "dict_get (to_dict u) (py_str ''role'') = Some (PStr (role_name (role u)))"
  "dict_get (to_dict u) (py_str ''created_at'') = Some (PStr (isoformat (created_at u)))"
  by (simp_all add: to_dict_def dict_get_def dict_keys_def py_str_def)

lemma valid_alice: "is_valid_email (py_str ''alice@example.com'')"
  by (simp add: email_eval)

lemma valid_bob: "is_valid_email (py_str ''bob@example.com'')"
  by (simp add: email_eval)

lemma isoformat_new_year: "isoformat new_year = py_str ''2024-01-01T00:00:00''"
  by (simp add: isoformat_def new_year_def zpad_def dec.simps py_str_def)

text \<open>
  C2: for every identifier, name and email that passes the email check (and every choice of
  the optional arguments), the constructor returns a \<^verbatim>\<open>User\<close> with the given identifier,
  name and email, and \<^verbatim>\<open>to_dict\<close> of that user has exactly the keys \<^verbatim>\<open>id\<close>,
  \<^verbatim>\<open>name\<close>, \<^verbatim>\<open>email\<close>, \<^verbatim>\<open>role\<close>, \<^verbatim>\<open>created_at\<close>, whose values are the given
  identifier, name and email, the name of the user's role, and the ISO format of the user's
  creation time.
\<close>

theorem user_round_trip:
  assumes "is_valid_email em"
  shows "\<exists>u. User_init now i nm em r md ca = Inr u \<and>
           id_user u = i \<and> name u = nm \<and> email u = em \<and>
           role u = (case r of None \<Rightarrow> USER | Some x \<Rightarrow> x) \<and>
           created_at u = (case ca of None \<Rightarrow> now | Some t \<Rightarrow> t) \<and>
           dict_keys (to_dict u) =
             [py_str ''id'', py_str ''name'', py_str ''email'', py_str ''role'',
              py_str ''created_at''] \<and>
           dict_get (to_dict u) (py_str ''id'') = Some (PInt i) \<and>
           dict_get (to_dict u) (py_str ''name'') = Some (PStr nm) \<and>
           dict_get (to_dict u) (py_str ''email'') = Some (PStr em) \<and>
           dict_get (to_dict u) (py_str ''role'') = Some (PStr (role_name (role u))) \<and>
           dict_get (to_dict u) (py_str ''created_at'') = Some (PStr (isoformat (created_at u)))"
  using assms by (simp add: User_init_valid to_dict_lookup)

theorem user_round_trip_witness:
  "is_valid_email (py_str ''alice@example.com'') \<and>
   (\<exists>u. User_init new_year 1 (py_str ''Alice'') (py_str ''alice@example.com'') (Some ADMIN) None None =
           Inr u \<and>
        dict_get (to_dict u) (py_str ''id'') = Some (PInt 1) \<and>
        dict_get (to_dict u) (py_str ''name'') = Some (PStr (py_str ''Alice'')) \<and>
        dict_get (to_dict u) (py_str ''email'') = Some (PStr (py_str ''alice@example.com'')) \<and>
        dict_get (to_dict u) (py_str ''role'') = Some (PStr (py_str ''ADMIN'')) \<and>
        dict_get (to_dict u) (py_str ''created_at'') = Some (PStr (py_str ''2024-01-01T00:00:00'')))"
proof -
  from user_round_trip [OF valid_alice, of new_year 1 "py_str ''Alice''" "Some ADMIN" None None]
  obtain u where
    "User_init new_year 1 (py_str ''Alice'') (py_str ''alice@example.com'') (Some ADMIN) None None = Inr u"
    "role u = ADMIN" "created_at u = new_year"
    "dict_get (to_dict u) (py_str ''id'') = Some (PInt 1)"
    "dict_get (to_dict u) (py_str ''name'') = Some (PStr (py_str ''Alice''))"
    "dict_get (to_dict u) (py_str ''email'') = Some (PStr (py_str ''alice@example.com''))"
    "dict_get (to_dict u) (py_str ''role'') = Some (PStr (role_name (role u)))"
    "dict_get (to_dict u) (py_str ''created_at'') = Some (PStr (isoformat (created_at u)))"
    by auto
  with valid_alice show ?thesis
    by (auto simp: isoformat_new_year)
qed

section \<open>What the email check accepts\<close>

text \<open>A repetition matches a non-empty run of the class, followed by a match of the rest.\<close>

lemma re_match_at_Plus1:
  "re_match_at (Plus1 cls # ps) pos s \<longleftrightarrow>
     (\<exists>a rest. s = a @ rest \<and> a \<noteq> [] \<and> list_all cls a \<and> re_match_at ps (pos + length a) rest)"
proof (induction s arbitrary: pos)
  case Nil
  show ?case by simp
next
  case (Cons x xs)
  show ?case
  proof
    assume "re_match_at (Plus1 cls # ps) pos (x # xs)"
    then have x: "cls x"
      and d: "re_match_at (Plus1 cls # ps) (Suc pos) xs \<or> re_match_at ps (Suc pos) xs"
      by simp_all
    from d show "\<exists>a rest. x # xs = a @ rest \<and> a \<noteq> [] \<and> list_all cls a \<and>
                   re_match_at ps (pos + length a) rest"
    proof
      assume "re_match_at (Plus1 cls # ps) (Suc pos) xs"
      with Cons.IH [of "Suc pos"] obtain a rest where
        "xs = a @ rest" "a \<noteq> []" "list_all cls a" "re_match_at ps (Suc pos + length a) rest"
        by blast
      with x have "x # xs = (x # a) @ rest \<and> x # a \<noteq> [] \<and> list_all cls (x # a) \<and>
                   re_match_at ps (pos + length (x # a)) rest"
        by simp
      then show ?thesis by blast
    next
      assume "re_match_at ps (Suc pos) xs"
      with x have "x # xs = [x] @ xs \<and> [x] \<noteq> [] \<and> list_all cls [x] \<and>
                   re_match_at ps (pos + length [x]) xs"
        by simp
      then show ?thesis by blast
    qed
  next
    assume "\<exists>a rest. x # xs = a @ rest \<and> a \<noteq> [] \<and> list_all cls a \<and>
                   re_match_at ps (pos + length a) rest"
    then obtain a rest where a: "x # xs = a @ rest" "a \<noteq> []" "list_all cls a"
        "re_match_at ps (pos + length a) rest"
      by blast
    then obtain a' where a': "a = x # a'" "xs = a' @ rest"
      by (cases a) auto
    show "re_match_at (Plus1 cls # ps) pos (x # xs)"
    proof (cases "a' = []")
      case True
      with a a' show ?thesis by simp
    next
      case False
      with a a' have "re_match_at (Plus1 cls # ps) (Suc pos) xs"
        using Cons.IH [of "Suc pos"] by auto
      with a a' show ?thesis by simp
    qed
  qed
qed

lemma re_match_at_Lit:
  "re_match_at (Lit c # ps) pos s \<longleftrightarrow> (\<exists>rest. s = c # rest \<and> re_match_at ps (Suc pos) rest)"
  by (cases s) auto

lemma is_valid_email_split:
  "is_valid_email s \<longleftrightarrow>
     (\<exists>a b c t. s = a @ [64] @ b @ [46] @ c @ t \<and> segment a \<and> segment b \<and> segment c \<and>
                (t = [] \<or> t = [10]))"
  unfolding is_valid_email_def re_match_def pattern_def segment_def
  by (simp add: re_match_at_Plus1 re_match_at_Lit) blast

lemma split_at_two:
  assumes "i < j" and "j < length s"
  shows "s = take i s @ [s ! i] @ take (j - Suc i) (drop (Suc i) s) @ [s ! j] @ drop (Suc j) s"
proof -
  from assms have i: "i < length s" by simp
  have 1: "s = take i s @ s ! i # drop (Suc i) s"
    using i by (rule id_take_nth_drop)
  from assms have j: "j - Suc i < length (drop (Suc i) s)" by simp
  have 2: "drop (Suc i) s =
           take (j - Suc i) (drop (Suc i) s) @ drop (Suc i) s ! (j - Suc i) #
           drop (Suc (j - Suc i)) (drop (Suc i) s)"
    using j by (rule id_take_nth_drop)
  from assms have 3: "drop (Suc i) s ! (j - Suc i) = s ! j" by simp
  from assms have 4: "drop (Suc (j - Suc i)) (drop (Suc i) s) = drop (Suc j) s" by simp
  from 1 2 3 4 show ?thesis by simp
qed

lemma spec_well_formed_iff:
  "spec_well_formed s \<longleftrightarrow>
     (\<exists>a b c. s = a @ [64] @ b @ [46] @ c \<and> segment a \<and> segment b \<and> segment c)"
proof
  assume "spec_well_formed s"
  then obtain i j where ij: "i < length s" "Suc i \<le> j" "j < length s"
    and seg: "segment (take i s)" "s ! i = 64" "segment (take (j - Suc i) (drop (Suc i) s))"
      "s ! j = 46" "segment (drop (Suc j) s)"
    by (auto simp: spec_well_formed_def list_ex_iff)
  from ij have "s = take i s @ [s ! i] @ take (j - Suc i) (drop (Suc i) s) @ [s ! j] @ drop (Suc j) s"
    by (intro split_at_two) simp_all
  with seg have "s = take i s @ [64] @ take (j - Suc i) (drop (Suc i) s) @ [46] @ drop (Suc j) s"
    by simp
  with seg show "\<exists>a b c. s = a @ [64] @ b @ [46] @ c \<and> segment a \<and> segment b \<and> segment c"
    by blast
next
  assume "\<exists>a b c. s = a @ [64] @ b @ [46] @ c \<and> segment a \<and> segment b \<and> segment c"
  then obtain a b c where s: "s = a @ [64] @ b @ [46] @ c"
    and seg: "segment a" "segment b" "segment c"
    by blast
  let ?i = "length a" and ?j = "Suc (length a + length b)"
  from seg obtain c0 cs where c: "c = c0 # cs"
    by (cases c) (auto simp: segment_def)
  have i: "0 \<le> ?i \<and> ?i < length s" and j: "Suc ?i \<le> ?j \<and> ?j < length s"
    using s c by simp_all
  have i': "?i \<in> set [0..<length s]"
    using i by (simp only: set_upt atLeastLessThan_iff)
  have j': "?j \<in> set [Suc ?i..<length s]"
    using j by (simp only: set_upt atLeastLessThan_iff)
  have "segment (take ?i s)" "s ! ?i = 64" "segment (take (?j - Suc ?i) (drop (Suc ?i) s))"
    "s ! ?j = 46" "segment (drop (Suc ?j) s)"
    using s seg by (simp_all add: nth_append)
  with i' j' show "spec_well_formed s"
    unfolding spec_well_formed_def list_ex_iff by blast
qed

lemma spec_well_formed_last: "spec_well_formed s \<Longrightarrow> not_space_at (last s)"
  by (auto simp: spec_well_formed_iff segment_def list_all_iff)

text \<open>
  The check accepts the well-formed emails of the specification, and those followed by one
  newline, and nothing else.
\<close>

lemma is_valid_email_iff:
  "is_valid_email s \<longleftrightarrow> spec_well_formed s \<or> (\<exists>t. s = t @ [10] \<and> spec_well_formed t)"
proof
  assume "is_valid_email s"
  then obtain a b c t where s: "s = a @ [64] @ b @ [46] @ c @ t"
    and seg: "segment a" "segment b" "segment c" and t: "t = [] \<or> t = [10]"
    unfolding is_valid_email_split by blast
  from seg have w: "spec_well_formed (a @ [64] @ b @ [46] @ c)"
    unfolding spec_well_formed_iff by blast
  from t show "spec_well_formed s \<or> (\<exists>t. s = t @ [10] \<and> spec_well_formed t)"
  proof
    assume "t = []"
    with s w show ?thesis by simp
  next
    assume "t = [10]"
    with s have "s = (a @ [64] @ b @ [46] @ c) @ [10]" by simp
    with w show ?thesis by blast
  qed
next
  assume "spec_well_formed s \<or> (\<exists>t. s = t @ [10] \<and> spec_well_formed t)"
  then show "is_valid_email s"
  proof
    assume "spec_well_formed s"
    then obtain a b c where "s = a @ [64] @ b @ [46] @ c @ []" "segment a" "segment b" "segment c"
      unfolding spec_well_formed_iff by auto
    then show ?thesis unfolding is_valid_email_split by blast
  next
    assume "\<exists>t. s = t @ [10] \<and> spec_well_formed t"
    then obtain a b c where "s = a @ [64] @ b @ [46] @ c @ [10]" "segment a" "segment b" "segment c"
      unfolding spec_well_formed_iff by auto
    then show ?thesis unfolding is_valid_email_split by blast
  qed
qed

text \<open>
  C1: every email that is not well-formed (a segment, an \<^verbatim>\<open>@\<close>, a segment, a dot, a
  segment) should be refused by the constructor. The code departs from this for a well-formed
  email followed by a newline: such a string is not well-formed, since it ends with a
  whitespace character, yet it passes the email check, because \<^verbatim>\<open>$\<close> also matches just
  before a newline that ends the subject, and the constructor returns a \<^verbatim>\<open>User\<close> whose
  email ends with the newline.
\<close>

theorem trailing_newline_accepted:
  assumes "spec_well_formed t"
  shows "\<not> spec_well_formed (t @ [10]) \<and> is_valid_email (t @ [10]) \<and>
         User_init now i nm (t @ [10]) r md ca =
           Inr \<lparr>id_user = i, name = nm, email = t @ [10],
                role = (case r of None \<Rightarrow> USER | Some x \<Rightarrow> x),
                metadata = (case md of None \<Rightarrow> [] | Some m \<Rightarrow> m),
                created_at = (case ca of None \<Rightarrow> now | Some c \<Rightarrow> c)\<rparr>"
proof -
  have "\<not> not_space_at (last (t @ [10]))"
    by (simp add: not_space_at_def isspace_def)
  then have 1: "\<not> spec_well_formed (t @ [10])"
    using spec_well_formed_last by blast
  from assms have 2: "is_valid_email (t @ [10])"
    unfolding is_valid_email_iff by blast
  from 1 2 show ?thesis
    by (simp add: User_init_def post_init_def Let_def)
qed

lemma wf_abc: "spec_well_formed (py_str ''a@b.c'')"
  by (simp add: spec_well_formed_def segment_def py_str_def not_space_at_def isspace_def upt_rec)

theorem trailing_newline_accepted_witness:
  "spec_well_formed (py_str ''a@b.c'') \<and>
   \<not> spec_well_formed (py_str ''a@b.c'' @ [10]) \<and>
   is_valid_email (py_str ''a@b.c'' @ [10]) \<and>
   User_init new_year 1 (py_str ''A'') (py_str ''a@b.c'' @ [10]) None None None =
     Inr \<lparr>id_user = 1, name = py_str ''A'', email = py_str ''a@b.c'' @ [10], role = USER,
          metadata = [], created_at = new_year\<rparr>"
  using trailing_newline_accepted [OF wf_abc, of new_year 1 "py_str ''A''" None None None] wf_abc
  by simp

section \<open>Validation failure in \<open>create_user\<close>\<close>

text \<open>
  C8: \<^verbatim>\<open>create_user\<close> is atomic on validation failure. For every service state, name,
  role and every email that fails the email check, the call raises \<^verbatim>\<open>ValueError\<close> and the
  service, its cache included, is what it was before the call.
\<close>

theorem create_user_atomic:
  assumes "\<not> is_valid_email em"
  shows "create_user now self nm em r =
           (Inl (Exc ValueError (py_str ''Invalid email: '' @ em)), self)"
  using assms by (simp add: create_user_def User_init_def post_init_def Let_def)

theorem create_user_atomic_witness:
  "\<not> is_valid_email (py_str ''bob.example.com'') \<and>
   create_user new_year UserService_init (py_str ''Bob'') (py_str ''bob.example.com'') None =
     (Inl (Exc ValueError (py_str ''Invalid email: bob.example.com'')), UserService_init)"
proof -
  have h: "\<not> is_valid_email (py_str ''bob.example.com'')"
    by (simp add: email_eval)
  from create_user_atomic [OF h, of new_year UserService_init "py_str ''Bob''" None]
  show ?thesis using h by (simp add: py_str_def)
qed

section \<open>Users by role\<close>

lemma users_with_role_filter: "users_with_role r us = filter (\<lambda>u. role u = r) us"
  by (induction us) auto

text \<open>
  C10: \<^verbatim>\<open>get_users_by_role\<close> returns the users of the cache entries whose role is the
  given one, in the order of the entries, which is the filter of the cache's values by
  equality of the role; the members of the result are exactly the cached users with that
  role; and the service is not modified.
\<close>

theorem get_users_by_role_filter:
  "get_users_by_role self r =
     (map snd (filter (\<lambda>(k, u). role u = r) (cache self)), self) \<and>
   fst (get_users_by_role self r) = filter (\<lambda>u. role u = r) (dict_values (cache self)) \<and>
   set (fst (get_users_by_role self r)) = {u \<in> set (dict_values (cache self)). role u = r}"
  by (auto simp add: get_users_by_role_def users_with_role_filter dict_values_def filter_map
        comp_def case_prod_unfold)

theorem get_users_by_role_filter_witness:
  "get_users_by_role (UserService_init\<lparr>cache := [(1, alice), (2, bob)]\<rparr>) ADMIN =
     ([alice], UserService_init\<lparr>cache := [(1, alice), (2, bob)]\<rparr>)"
  using get_users_by_role_filter [of "UserService_init\<lparr>cache := [(1, alice), (2, bob)]\<rparr>" ADMIN]
  by (simp add: alice_def bob_def)

section \<open>Rounding in double arithmetic\<close>








text \<open>The binary digits of a number bound it from both sides.\<close>

lemma bits_upper: "n < 2 ^ bits n"
proof (induction n rule: bits.induct)
  case (1 n)
  show ?case
  proof (cases "n = 0")
    case True
    then show ?thesis by (simp add: bits.simps)
  next
    case False
    with 1 have "n div 2 < 2 ^ bits (n div 2)" by simp
    then have "n < 2 * 2 ^ bits (n div 2)" by linarith
    with False show ?thesis by (simp add: bits.simps [of n])
  qed
qed







































section \<open>The time gate of \<open>debounce\<close>\<close>





section \<open>The database connection holds no resource\<close>

text \<open>
  C7: a new \<^verbatim>\<open>DatabaseConnection\<close> has \<^verbatim>\<open>_connection\<close> \<open>None\<close>; \<^verbatim>\<open>__aenter__\<close>
  prints its message and, when the awaited delay completes, returns the object it was called
  on, and in no case changes the object; \<^verbatim>\<open>__aexit__\<close> prints its message, changes
  nothing and returns \<open>False\<close> whatever the exception triple; so an exception raised by the
  body of an \<^verbatim>\<open>async with\<close> statement leaves the statement.
\<close>

theorem database_connection_inert:
  "connection (DatabaseConnection_init cs) = None \<and>
   aenter Completes self =
     (Inr self, self, [Printed (py_str ''Connecting to '' @ connection_string self)]) \<and>
   fst (snd (aenter sim self)) = self \<and>
   aexit self exc_type exc_val exc_tb =
     (False, self, [Printed (py_str ''Closing database connection'')]) \<and>
   (body self = Inl e \<longrightarrow> fst (async_with Completes self body) = Inl e)"
  by (simp add: DatabaseConnection_init_def aenter_def aexit_def async_with_def Let_def
        split: await_outcome.split)

theorem database_connection_inert_witness:
  "connection (DatabaseConnection_init (py_str ''db://x'')) = None \<and>
   aenter Completes (DatabaseConnection_init (py_str ''db://x'')) =
     (Inr (DatabaseConnection_init (py_str ''db://x'')), DatabaseConnection_init (py_str ''db://x''),
      [Printed (py_str ''Connecting to db://x'')]) \<and>
   aexit (DatabaseConnection_init (py_str ''db://x'')) (Some ValueError) (Some (Exc ValueError []))
       (Some ()) =
     (False, DatabaseConnection_init (py_str ''db://x''),
      [Printed (py_str ''Closing database connection'')]) \<and>
   fst (async_with Completes (DatabaseConnection_init (py_str ''db://x''))
         (\<lambda>c. (Inl (Exc ValueError []) :: exc + unit))) =
     Inl (Exc ValueError [])"
  using database_connection_inert [of "py_str ''db://x''"
      "DatabaseConnection_init (py_str ''db://x'')"
      Completes "Some ValueError" "Some (Exc ValueError [])" "Some ()"
      "\<lambda>c. (Inl (Exc ValueError []) :: exc + unit)" "Exc ValueError []"]
  by (simp add: DatabaseConnection_init_def py_str_def)

section \<open>Lookups in the cache\<close>

lemma dict_get_set_same: "dict_get (dict_set d k v) k = Some v"
  by (induction d) (auto simp: dict_get_def)

lemma dict_keys_set:
  "dict_keys (dict_set d k v) = (if k \<in> set (dict_keys d) then dict_keys d else dict_keys d @ [k])"
  by (induction d) (force simp: dict_keys_def)+

lemma fetch_user_2:
  "fetch_by_id Completes new_year UserService_init 2 =
     (Inr (Some mock_user_2), UserService_init\<lparr>cache := [(2, mock_user_2)]\<rparr>,
      [Calling (py_str ''fetch_by_id'') 2, Returned (py_str ''fetch_by_id'') (Some mock_user_2)])"
  by (simp add: fetch_by_id_def logged_def fetch_by_id_body_def get_cache_def simulated_fetch_def
        set_cache_def User_init_def post_init_def UserService_init_def dict_get_def
        str_int_def dec.simps email_eval mock_user_2_def)

text \<open>
  C3: repeated lookups by the same identifier return the same stored value. A call of
  \<^verbatim>\<open>_get_cache\<close> returns what the cache holds under the identifier, and two calls in a
  row, the second on the service the first left, return equal results and leave the service
  unchanged. After \<^verbatim>\<open>fetch_by_id\<close> has returned a user, that user is stored in the cache
  under the identifier, and a second call with the same identifier returns it from there:
  whatever the awaited delay and the clock would do then, the result is the stored user, the
  service is unchanged, and the only lines printed are those of the decorator.
\<close>

theorem repeated_lookup_same_value:
  "(get_cache self i = (r1, self1) \<longrightarrow> get_cache self1 i = (r2, self2) \<longrightarrow>
      r1 = r2 \<and> self2 = self \<and> r1 = dict_get (cache self) i) \<and>
   (fetch_by_id sim1 now1 self i = (Inr (Some u), self', out1) \<longrightarrow>
      dict_get (cache self') i = Some u \<and>
      get_cache self' i = (Some u, self') \<and>
      fetch_by_id sim2 now2 self' i =
        (Inr (Some u), self',
         [Calling (py_str ''fetch_by_id'') i, Returned (py_str ''fetch_by_id'') (Some u)]))"
proof (intro conjI impI)
  assume "get_cache self i = (r1, self1)" and "get_cache self1 i = (r2, self2)"
  then show "r1 = r2" and "self2 = self" and "r1 = dict_get (cache self) i"
    by (auto simp: get_cache_def)
next
  assume a: "fetch_by_id sim1 now1 self i = (Inr (Some u), self', out1)"
  show stored: "dict_get (cache self') i = Some u"
  proof (cases "dict_get (cache self) i")
    case (Some c)
    with a show ?thesis
      by (auto simp: fetch_by_id_def logged_def fetch_by_id_body_def get_cache_def)
  next
    case None
    with a show ?thesis
      by (auto simp: fetch_by_id_def logged_def fetch_by_id_body_def get_cache_def
            simulated_fetch_def set_cache_def dict_get_set_same
          split: await_outcome.splits sum.splits if_splits prod.splits)
  qed
  then show "get_cache self' i = (Some u, self')"
    by (simp add: get_cache_def)
  from stored show "fetch_by_id sim2 now2 self' i =
        (Inr (Some u), self',
         [Calling (py_str ''fetch_by_id'') i, Returned (py_str ''fetch_by_id'') (Some u)])"
    by (simp add: fetch_by_id_def logged_def fetch_by_id_body_def get_cache_def)
qed

theorem repeated_lookup_same_value_witness:
  "fetch_by_id Completes new_year UserService_init 2 =
     (Inr (Some mock_user_2), UserService_init\<lparr>cache := [(2, mock_user_2)]\<rparr>,
      [Calling (py_str ''fetch_by_id'') 2, Returned (py_str ''fetch_by_id'') (Some mock_user_2)]) \<and>
   dict_get (cache (UserService_init\<lparr>cache := [(2, mock_user_2)]\<rparr>)) 2 = Some mock_user_2 \<and>
   get_cache (UserService_init\<lparr>cache := [(2, mock_user_2)]\<rparr>) 2 =
     (Some mock_user_2, UserService_init\<lparr>cache := [(2, mock_user_2)]\<rparr>) \<and>
   fetch_by_id (Raises (Exc TimeoutError [])) new_year
       (UserService_init\<lparr>cache := [(2, mock_user_2)]\<rparr>) 2 =
     (Inr (Some mock_user_2), UserService_init\<lparr>cache := [(2, mock_user_2)]\<rparr>,
      [Calling (py_str ''fetch_by_id'') 2, Returned (py_str ''fetch_by_id'') (Some mock_user_2)])"
  using repeated_lookup_same_value [THEN conjunct2, rule_format, OF fetch_user_2,
      where ?sim2.0 = "Raises (Exc TimeoutError [])" and ?now2.0 = new_year] fetch_user_2
  by blast

section \<open>Exceptions of the simulated fetch\<close>

text \<open>
  C4, as amended: when the identifier is not cached and the simulated fetch raises
  \<^verbatim>\<open>TimeoutError\<close>, or another exception that is an instance of \<^verbatim>\<open>Exception\<close>,
  \<^verbatim>\<open>fetch_by_id\<close> prints a line naming the identifier, returns \<open>None\<close> and leaves the
  service as it was. An exception that derives from \<^verbatim>\<open>BaseException\<close> only is not handled:
  it leaves \<^verbatim>\<open>fetch_by_id\<close>, and nothing but the first line of the decorator is printed.
\<close>

theorem fetch_by_id_catches_Exception:
  assumes "dict_get (cache self) i = None"
  shows "(isinstance_TimeoutError e \<longrightarrow>
            fetch_by_id (Raises e) now self i =
              (Inr None, self,
               [Calling (py_str ''fetch_by_id'') i,
                Printed (py_str ''Timeout fetching user '' @ str_int i),
                Returned (py_str ''fetch_by_id'') None])) \<and>
         (\<not> isinstance_TimeoutError e \<and> isinstance_Exception e \<longrightarrow>
            fetch_by_id (Raises e) now self i =
              (Inr None, self,
               [Calling (py_str ''fetch_by_id'') i,
                Printed (py_str ''Error fetching user '' @ str_int i @ py_str '': '' @ exc_msg e),
                Returned (py_str ''fetch_by_id'') None])) \<and>
         (\<not> isinstance_Exception e \<longrightarrow>
            fetch_by_id (Raises e) now self i = (Inl e, self, [Calling (py_str ''fetch_by_id'') i]))"
proof -
  have "isinstance_TimeoutError e \<Longrightarrow> isinstance_Exception e"
    by (cases e) auto
  with assms show ?thesis
    by (auto simp: fetch_by_id_def logged_def fetch_by_id_body_def get_cache_def simulated_fetch_def)
qed

theorem fetch_by_id_catches_Exception_witness:
  "dict_get (cache UserService_init) 7 = None \<and>
   fetch_by_id (Raises (Exc TimeoutError [])) new_year UserService_init 7 =
     (Inr None, UserService_init,
      [Calling (py_str ''fetch_by_id'') 7, Printed (py_str ''Timeout fetching user 7''),
       Returned (py_str ''fetch_by_id'') None]) \<and>
   fetch_by_id (Raises (Exc OtherException (py_str ''boom''))) new_year UserService_init 7 =
     (Inr None, UserService_init,
      [Calling (py_str ''fetch_by_id'') 7, Printed (py_str ''Error fetching user 7: boom''),
       Returned (py_str ''fetch_by_id'') None])"
proof -
  have h: "dict_get (cache UserService_init) 7 = None"
    by (simp add: UserService_init_def dict_get_def)
  from fetch_by_id_catches_Exception [OF h, of "Exc TimeoutError []" new_year]
    fetch_by_id_catches_Exception [OF h, of "Exc OtherException (py_str ''boom'')" new_year] h
  show ?thesis by (simp add: str_int_def dec.simps py_str_def)
qed

text \<open>
  C4 as the specification states it, for any exception, fails for one that is not an instance
  of \<^verbatim>\<open>Exception\<close>: a \<^verbatim>\<open>CancelledError\<close> raised at the awaited delay leaves
  \<^verbatim>\<open>fetch_by_id\<close>.
\<close>

theorem fetch_by_id_propagates_CancelledError:
  "fst (fetch_by_id (Raises (Exc CancelledError [])) new_year UserService_init 7) =
     Inl (Exc CancelledError []) \<and>
   fst (fetch_by_id (Raises (Exc CancelledError [])) new_year UserService_init 7) \<noteq> Inr None"
  by (simp add: fetch_by_id_def logged_def fetch_by_id_body_def get_cache_def simulated_fetch_def
        UserService_init_def dict_get_def)

section \<open>The cache has no eviction\<close>

lemma run_op_keys: "set (dict_keys (cache self)) \<subseteq> set (dict_keys (cache (run_op self x)))"
proof (cases x)
  case (FetchById sim now i)
  then show ?thesis
    by (auto simp: fetch_by_id_def logged_def fetch_by_id_body_def get_cache_def
          simulated_fetch_def set_cache_def dict_keys_set
        split: await_outcome.splits sum.splits option.splits if_splits prod.splits)
next
  case (CreateUser now nm em r)
  then show ?thesis
    by (auto simp: create_user_def set_cache_def dict_keys_set Let_def split: sum.splits)
qed (auto simp: get_cache_def set_cache_def get_users_by_role_def dict_keys_set)

lemma run_ops_append: "run_ops self (xs @ ys) = run_ops (run_ops self xs) ys"
  by (induction xs arbitrary: self) auto

lemma run_ops_keys: "set (dict_keys (cache self)) \<subseteq> set (dict_keys (cache (run_ops self ys)))"
proof (induction ys arbitrary: self)
  case Nil
  show ?case by simp
next
  case (Cons y ys)
  have "set (dict_keys (cache self)) \<subseteq> set (dict_keys (cache (run_op self y)))"
    by (rule run_op_keys)
  also have "\<dots> \<subseteq> set (dict_keys (cache (run_ops (run_op self y) ys)))"
    by (rule Cons.IH)
  finally show ?case by simp
qed

text \<open>
  C6: the cache never loses a key. For every service and every sequence of operations
  (\<^verbatim>\<open>_get_cache\<close>, \<^verbatim>\<open>_set_cache\<close>, \<^verbatim>\<open>fetch_by_id\<close>, \<^verbatim>\<open>create_user\<close>,
  \<^verbatim>\<open>get_users_by_role\<close>), a key that is in the cache after the operations \<open>xs\<close> is in
  the cache after any further operations \<open>ys\<close>.
\<close>

theorem cache_never_loses_a_key:
  assumes "k \<in> set (dict_keys (cache (run_ops self xs)))"
  shows "k \<in> set (dict_keys (cache (run_ops self (xs @ ys))))"
  using assms run_ops_keys [of "run_ops self xs" ys] by (auto simp: run_ops_append)

theorem cache_never_loses_a_key_witness:
  "2 \<in> set (dict_keys (cache (run_ops UserService_init [FetchById Completes new_year 2]))) \<and>
   2 \<in> set (dict_keys (cache (run_ops UserService_init
         ([FetchById Completes new_year 2] @
          [CreateUser new_year (py_str ''Bob'') (py_str ''bob@example.com'') None,
           SetCache 2 bob, GetUsersByRole USER, GetCache 3]))))"
proof -
  have h: "2 \<in> set (dict_keys (cache (run_ops UserService_init [FetchById Completes new_year 2])))"
    by (simp add: fetch_user_2 dict_keys_def)
  from cache_never_loses_a_key [OF h] h show ?thesis by blast
qed

section \<open>The identifiers \<open>create_user\<close> assigns\<close>

lemma dict_set_new: "k \<notin> set (dict_keys d) \<Longrightarrow> dict_set d k v = d @ [(k, v)]"
  by (induction d) (auto simp: dict_keys_def)

lemma dict_len_set:
  "dict_len (dict_set d k v) = (if k \<in> set (dict_keys d) then dict_len d else Suc (dict_len d))"
  by (induction d) (force simp: dict_keys_def dict_len_def)+
lemma create_user_valid:
  assumes "is_valid_email em"
  shows "\<exists>u. create_user now self nm em r =
             (Inr u, self\<lparr>cache := dict_set (cache self) (int (dict_len (cache self)) + 1) u\<rparr>) \<and>
           id_user u = int (dict_len (cache self)) + 1 \<and> name u = nm \<and> email u = em \<and>
           role u = (case r of None \<Rightarrow> USER | Some x \<Rightarrow> x)"
  using assms by (simp add: create_user_def User_init_valid Let_def set_cache_def)

text \<open>
  When the cache holds the users \<open>us\<close>, each under its identifier, and the identifiers are
  1, 2, ... in this order, it still does after a sequence of \<^verbatim>\<open>create_user\<close> calls, with
  the created users appended.
\<close>

lemma create_users_numbered:
  assumes "create_users self calls = (rs, self')"
    and "cache self = map (\<lambda>u. (id_user u, u)) us"
    and "map id_user us = map int [1..<Suc (length us)]"
  shows "cache self' = map (\<lambda>u. (id_user u, u)) (us @ created rs) \<and>
         map id_user (us @ created rs) = map int [1..<Suc (length (us @ created rs))]"
  using assms
proof (induction calls arbitrary: self rs us)
  case Nil
  then show ?case by simp
next
  case (Cons c calls)
  obtain now nm em r where c: "c = (now, nm, em, r)" by (cases c) auto
  show ?case
  proof (cases "is_valid_email em")
    case False
    then have "create_user now self nm em r =
                 (Inl (Exc ValueError (py_str ''Invalid email: '' @ em)), self)"
      by (simp add: create_user_def User_init_invalid Let_def)
    with Cons.prems c obtain rs' where
      rs: "rs = Inl (Exc ValueError (py_str ''Invalid email: '' @ em)) # rs'"
      and rec: "create_users self calls = (rs', self')"
      by (auto split: prod.splits)
    from Cons.IH [OF rec Cons.prems(2) Cons.prems(3)] rs show ?thesis by simp
  next
    case True
    from create_user_valid [OF True, of now self nm r] obtain u where
      cu: "create_user now self nm em r =
             (Inr u, self\<lparr>cache := dict_set (cache self) (int (dict_len (cache self)) + 1) u\<rparr>)"
      and idu: "id_user u = int (dict_len (cache self)) + 1"
      by blast
    let ?self1 = "self\<lparr>cache := dict_set (cache self) (int (dict_len (cache self)) + 1) u\<rparr>"
    have len: "dict_len (cache self) = length us"
      using Cons.prems(2) by (simp add: dict_len_def)
    have keys: "dict_keys (cache self) = map int [1..<Suc (length us)]"
      using Cons.prems(2,3) by (simp add: dict_keys_def comp_def)
    have fresh: "int (length us) + 1 \<notin> set (dict_keys (cache self))"
      unfolding keys by auto
    have c1: "cache ?self1 = map (\<lambda>u. (id_user u, u)) (us @ [u])"
      using dict_set_new [OF fresh, of u] idu len Cons.prems(2) by simp
    have n1: "map id_user (us @ [u]) = map int [1..<Suc (length (us @ [u]))]"
      using Cons.prems(3) idu len by simp
    from Cons.prems(1) c cu obtain rs' where rs: "rs = Inr u # rs'"
      and rec: "create_users ?self1 calls = (rs', self')"
      by (auto split: prod.splits)
    from Cons.IH [OF rec c1 n1] rs show ?thesis by simp
  qed
qed


lemma upto_ids_distinct: "distinct (map int [1..<Suc n])"
  by (simp add: distinct_map inj_on_def)

text \<open>
  C9: \<^verbatim>\<open>create_user\<close> with a valid email gives the new user the identifier
  \<open>len(cache) + 1\<close> and stores it under that key. On a new service where only
  \<^verbatim>\<open>create_user\<close> is called, the cache holds the created users in the order of their
  creation, each under its identifier, the n-th created user has the identifier n, and the
  identifiers are distinct. When the cache already has an entry under \<open>len(cache) + 1\<close>,
  the call puts the new user in the place of that entry: the keys and the size of the cache
  stay as they were.
\<close>

theorem create_user_next_id:
  "(is_valid_email em \<longrightarrow>
      (\<exists>u. create_user now self nm em r =
              (Inr u, self\<lparr>cache := dict_set (cache self) (int (dict_len (cache self)) + 1) u\<rparr>) \<and>
            id_user u = int (dict_len (cache self)) + 1 \<and>
            dict_get (cache (snd (create_user now self nm em r))) (id_user u) = Some u)) \<and>
   (create_users UserService_init calls = (rs, self') \<longrightarrow>
      cache self' = map (\<lambda>u. (id_user u, u)) (created rs) \<and>
      map id_user (created rs) = map int [1..<Suc (length (created rs))] \<and>
      distinct (map id_user (created rs))) \<and>
   (is_valid_email em \<and> dict_get (cache self) (int (dict_len (cache self)) + 1) = Some old \<longrightarrow>
      (\<exists>u self1. create_user now self nm em r = (Inr u, self1) \<and>
         id_user u = int (dict_len (cache self)) + 1 \<and>
         dict_get (cache self1) (id_user u) = Some u \<and>
         dict_keys (cache self1) = dict_keys (cache self) \<and>
         dict_len (cache self1) = dict_len (cache self)))"
proof (intro conjI impI)
  assume v: "is_valid_email em"
  from create_user_valid [OF v, of now self nm r]
  show "\<exists>u. create_user now self nm em r =
              (Inr u, self\<lparr>cache := dict_set (cache self) (int (dict_len (cache self)) + 1) u\<rparr>) \<and>
            id_user u = int (dict_len (cache self)) + 1 \<and>
            dict_get (cache (snd (create_user now self nm em r))) (id_user u) = Some u"
    by (auto simp: dict_get_set_same)
next
  assume a: "create_users UserService_init calls = (rs, self')"
  have "cache self' = map (\<lambda>u. (id_user u, u)) ([] @ created rs) \<and>
        map id_user ([] @ created rs) = map int [1..<Suc (length ([] @ created rs))]"
    by (rule create_users_numbered [OF a]) (simp_all add: UserService_init_def)
  then show "cache self' = map (\<lambda>u. (id_user u, u)) (created rs)"
    and n: "map id_user (created rs) = map int [1..<Suc (length (created rs))]"
    by simp_all
  show "distinct (map id_user (created rs))"
    unfolding n by (rule upto_ids_distinct)
next
  assume b: "is_valid_email em \<and> dict_get (cache self) (int (dict_len (cache self)) + 1) = Some old"
  then have "int (dict_len (cache self)) + 1 \<in> set (dict_keys (cache self))"
    by (auto simp: dict_get_def dict_keys_def dest: map_of_SomeD intro: rev_image_eqI)
  with b create_user_valid [of em now self nm r]
  show "\<exists>u self1. create_user now self nm em r = (Inr u, self1) \<and>
         id_user u = int (dict_len (cache self)) + 1 \<and>
         dict_get (cache self1) (id_user u) = Some u \<and>
         dict_keys (cache self1) = dict_keys (cache self) \<and>
         dict_len (cache self1) = dict_len (cache self)"
    by (auto simp: dict_keys_set dict_len_set dict_get_set_same)
qed

lemma create_alice_bob:
  "create_users UserService_init
     [(new_year, py_str ''Alice'', py_str ''alice@example.com'', Some ADMIN),
      (new_year, py_str ''Eve'', py_str ''eve.example.com'', Some GUEST),
      (new_year, py_str ''Bob'', py_str ''bob@example.com'', None)] =
   ([Inr alice, Inl (Exc ValueError (py_str ''Invalid email: eve.example.com'')), Inr bob],
    UserService_init\<lparr>cache := [(1, alice), (2, bob)]\<rparr>)"
  by (simp add: create_user_def User_init_def post_init_def set_cache_def dict_len_def
        UserService_init_def alice_def bob_def email_eval)

theorem create_user_next_id_witness:
  "is_valid_email (py_str ''bob@example.com'') \<and>
   dict_get (cache (UserService_init\<lparr>cache := [(2, mock_user_2)]\<rparr>)) 2 = Some mock_user_2 \<and>
   (\<exists>u self1. create_user new_year (UserService_init\<lparr>cache := [(2, mock_user_2)]\<rparr>)
         (py_str ''Bob'') (py_str ''bob@example.com'') None = (Inr u, self1) \<and>
       id_user u = 2 \<and> dict_get (cache self1) 2 = Some u \<and> dict_keys (cache self1) = [2] \<and>
       dict_len (cache self1) = 1) \<and>
   cache (UserService_init\<lparr>cache := [(1, alice), (2, bob)]\<rparr>) =
     map (\<lambda>u. (id_user u, u)) [alice, bob] \<and>
   map id_user [alice, bob] = [1, 2]"
proof -
  have h: "dict_get (cache (UserService_init\<lparr>cache := [(2, mock_user_2)]\<rparr>))
             (int (dict_len (cache (UserService_init\<lparr>cache := [(2, mock_user_2)]\<rparr>))) + 1) =
           Some mock_user_2"
    by (simp add: dict_get_def dict_len_def)
  note t = create_user_next_id [where em = "py_str ''bob@example.com''" and now = new_year
      and nm = "py_str ''Bob''" and r = None and old = mock_user_2
      and self = "UserService_init\<lparr>cache := [(2, mock_user_2)]\<rparr>"]
  from t [THEN conjunct2, THEN conjunct1, rule_format, OF create_alice_bob]
    t [THEN conjunct2, THEN conjunct2, rule_format, OF conjI, OF valid_bob h] valid_bob h
  show ?thesis by (auto simp: dict_keys_def dict_len_def)
qed

end
